theory Spec2Isabelle
  imports Complex_Main "HOL-Library.Log_Nat"
begin

section \<open>JavaScript numbers\<close>

text \<open>
  Every numeric value of the widget (pointer coordinates, rotation angles, the rotation
  speed, the camera's aspect ratio) is a JavaScript Number: an IEEE 754 binary64 value.
  A finite value is modelled by the rational it denotes; the two infinities and NaN are
  constructors of their own. Each arithmetic operation computes the exact rational
  result and rounds it to the nearest binary64 value, ties to even (\<open>r64\<close>), with
  gradual underflow (the exponent never goes below \<open>-1022\<close>) and overflow to an
  infinity. The sign of a zero is not represented: it can only be observed by dividing
  by that zero, and the one division of the source divides by a container height, which
  is a non-negative integer.
\<close>

datatype number = Fin rat | PosInf | NegInf | NaN

definition flog2 :: "rat \<Rightarrow> int" where
  \<comment> \<open>for \<open>0 < x\<close>: the exponent \<open>e\<close> with \<open>2 powi e \<le> x < 2 powi (e + 1)\<close>\<close>
  "flog2 x = (let (p, q) = quotient_of x; d = bitlen p - bitlen q
              in if 2 powi d \<le> x then d else d - 1)"

definition round_ties_even :: "rat \<Rightarrow> int" where
  "round_ties_even x =
     (let f = \<lfloor>x\<rfloor>; r = x - of_int f
      in if r < 1 / 2 then f else if 1 / 2 < r then f + 1
         else if even f then f else f + 1)"

definition r64 :: "rat \<Rightarrow> number" where
  "r64 x =
     (if x = 0 then Fin 0
      else let a = \<bar>x\<bar>;
               e = max (flog2 a) (- 1022);
               u = 2 powi (e - 52);
               y = of_int (round_ties_even (a / u)) * u
           in if 2 powi 1024 \<le> y then (if 0 < x then PosInf else NegInf)
              else Fin (if 0 < x then y else - y))"

fun num_neg :: "number \<Rightarrow> number" where
  "num_neg (Fin a) = Fin (- a)"
| "num_neg PosInf = NegInf"
| "num_neg NegInf = PosInf"
| "num_neg NaN = NaN"

fun num_add :: "number \<Rightarrow> number \<Rightarrow> number" where
  "num_add NaN _ = NaN"
| "num_add _ NaN = NaN"
| "num_add PosInf NegInf = NaN"
| "num_add NegInf PosInf = NaN"
| "num_add PosInf _ = PosInf"
| "num_add _ PosInf = PosInf"
| "num_add NegInf _ = NegInf"
| "num_add _ NegInf = NegInf"
| "num_add (Fin a) (Fin b) = r64 (a + b)"

definition num_sub :: "number \<Rightarrow> number \<Rightarrow> number" where
  "num_sub x y = num_add x (num_neg y)"

fun num_mul :: "number \<Rightarrow> number \<Rightarrow> number" where
  "num_mul NaN _ = NaN"
| "num_mul _ NaN = NaN"
| "num_mul (Fin a) (Fin b) = r64 (a * b)"
| "num_mul (Fin a) PosInf = (if a = 0 then NaN else if 0 < a then PosInf else NegInf)"
| "num_mul (Fin a) NegInf = (if a = 0 then NaN else if 0 < a then NegInf else PosInf)"
| "num_mul PosInf (Fin b) = (if b = 0 then NaN else if 0 < b then PosInf else NegInf)"
| "num_mul NegInf (Fin b) = (if b = 0 then NaN else if 0 < b then NegInf else PosInf)"
| "num_mul PosInf PosInf = PosInf"
| "num_mul PosInf NegInf = NegInf"
| "num_mul NegInf PosInf = NegInf"
| "num_mul NegInf NegInf = PosInf"

fun num_div :: "number \<Rightarrow> number \<Rightarrow> number" where
  "num_div NaN _ = NaN"
| "num_div _ NaN = NaN"
| "num_div (Fin a) (Fin b) =
     (if b = 0 then (if a = 0 then NaN else if 0 < a then PosInf else NegInf)
      else r64 (a / b))"
| "num_div (Fin a) PosInf = Fin 0"
| "num_div (Fin a) NegInf = Fin 0"
| "num_div PosInf (Fin b) = (if 0 \<le> b then PosInf else NegInf)"
| "num_div NegInf (Fin b) = (if 0 \<le> b then NegInf else PosInf)"
| "num_div PosInf PosInf = NaN"
| "num_div PosInf NegInf = NaN"
| "num_div NegInf PosInf = NaN"
| "num_div NegInf NegInf = NaN"

fun num_less :: "number \<Rightarrow> number \<Rightarrow> bool" where
  "num_less NaN _ = False"
| "num_less _ NaN = False"
| "num_less (Fin a) (Fin b) = (a < b)"
| "num_less (Fin a) PosInf = True"
| "num_less (Fin a) NegInf = False"
| "num_less PosInf _ = False"
| "num_less NegInf NegInf = False"
| "num_less NegInf _ = True"

fun num_le :: "number \<Rightarrow> number \<Rightarrow> bool" where
  "num_le NaN _ = False"
| "num_le _ NaN = False"
| "num_le x y = (\<not> num_less y x)"

definition lit :: "rat \<Rightarrow> number" where
  \<comment> \<open>a decimal literal of the source, such as \<open>0.01\<close>: the nearest binary64 value\<close>
  "lit q = r64 q"

definition number_of_nat :: "nat \<Rightarrow> number" where
  \<comment> \<open>an integer-valued DOM attribute (\<open>clientWidth\<close>, \<open>clientHeight\<close>) read as a Number\<close>
  "number_of_nat n = r64 (of_nat n)"

definition is_f64 :: "number \<Rightarrow> bool" where
  \<comment> \<open>the value is one a binary64 variable can hold: rounding leaves it as it is\<close>
  "is_f64 v = (case v of Fin a \<Rightarrow> r64 a = Fin a | _ \<Rightarrow> True)"

subsection \<open>Number.prototype.toFixed(3)\<close>

text \<open>
  \<open>toFixed(3)\<close> of a finite \<open>x\<close> below \<open>10^21\<close> takes the integer \<open>n\<close> for which
  \<open>n / 1000 - x\<close> is closest to zero (the larger \<open>n\<close> of two), writes its decimal
  digits, pads them with zeros to four digits and puts the point before the last three.
  From \<open>10^21\<close> on JavaScript switches to the exponential notation of \<open>ToString\<close>, which
  is outside this model (\<open>None\<close>); the speed readout never gets there.
\<close>

definition digit_char :: "nat \<Rightarrow> char" where
  "digit_char d = ''0123456789'' ! d"

fun digits10 :: "nat \<Rightarrow> string" where
  "digits10 n = (if n < 10 then [digit_char n] else digits10 (n div 10) @ [digit_char (n mod 10)])"

declare digits10.simps [simp del]

definition toFixed3 :: "number \<Rightarrow> string option" where
  "toFixed3 v =
     (case v of
        NaN \<Rightarrow> Some ''NaN''
      | PosInf \<Rightarrow> Some ''Infinity''
      | NegInf \<Rightarrow> Some ''-Infinity''
      | Fin x \<Rightarrow>
          (let s = (if x < 0 then ''-'' else '''');
               a = \<bar>x\<bar>
           in if 10 ^ 21 \<le> a then None
              else let n = nat \<lfloor>a * 1000 + 1 / 2\<rfloor>;
                       m = digits10 n;
                       m' = replicate (4 - length m) (CHR ''0'') @ m;
                       k = length m'
                   in Some (s @ take (k - 3) m' @ ''.'' @ drop (k - 3) m')))"

section \<open>The capability probe\<close>

text \<open>
  \<open>isWebGLAvailable\<close> calls into the host: \<open>document.createElement("canvas")\<close>, the
  property \<open>window.WebGLRenderingContext\<close>, and \<open>canvas.getContext\<close> for the names
  \<open>"webgl"\<close> and \<open>"experimental-webgl"\<close>. Each of them either throws or returns; for
  the marker and the contexts only the truthiness of what is returned matters
  (\<open>getContext\<close> returns a context object or \<open>null\<close>).
\<close>

datatype exn = Exn

datatype 'a outcome = Throws | Returns 'a

record host =
  createElement_canvas :: "unit outcome"
  WebGLRenderingContext :: "bool outcome"
  getContext_webgl :: "bool outcome"
  getContext_experimental_webgl :: "bool outcome"

definition probe_attempt :: "host \<Rightarrow> exn + bool" where
  \<comment> \<open>the body of the \<open>try\<close> block; \<open>&&\<close> and \<open>||\<close> evaluate their right operand only when needed\<close>
  "probe_attempt h =
     (case createElement_canvas h of
        Throws \<Rightarrow> Inl Exn
      | Returns _ \<Rightarrow>
          (case WebGLRenderingContext h of
             Throws \<Rightarrow> Inl Exn
           | Returns False \<Rightarrow> Inr False
           | Returns True \<Rightarrow>
               (case getContext_webgl h of
                  Throws \<Rightarrow> Inl Exn
                | Returns True \<Rightarrow> Inr True
                | Returns False \<Rightarrow>
                    (case getContext_experimental_webgl h of
                       Throws \<Rightarrow> Inl Exn
                     | Returns c \<Rightarrow> Inr c))))"

definition isWebGLAvailable :: "host \<Rightarrow> exn + bool" where
  \<comment> \<open>\<open>try { return ... } catch { return false; }\<close>\<close>
  "isWebGLAvailable h = (case probe_attempt h of Inl _ \<Rightarrow> Inr False | Inr b \<Rightarrow> Inr b)"

section \<open>The widget\<close>

subsection \<open>State\<close>

text \<open>
  The variables the mount effect creates and its handlers close over: the camera, the
  renderer, the cube's rotation and the drag state. \<open>camera_projection\<close> is the aspect
  ratio the projection matrix was last computed from (\<open>updateProjectionMatrix\<close> reads
  the field \<open>aspect\<close>; field of view and clipping planes never change), and
  \<open>frames_rendered\<close> counts the calls of \<open>renderer.render\<close>.
\<close>

record scene =
  camera_aspect :: number
  camera_projection :: number
  renderer_size :: "nat \<times> nat"
  canvas_attached :: bool
  renderer_disposed :: bool
  geometry_disposed :: bool
  material_disposed :: bool
  rotation_x :: number
  rotation_y :: number
  isDragging :: bool
  previousPointerPosition :: "number \<times> number"
  frames_rendered :: nat

datatype dom_event =
  Ev_mousedown | Ev_mouseup | Ev_mousemove | Ev_mouseleave
| Ev_touchstart | Ev_touchmove | Ev_touchend | Ev_touchcancel
| Ev_resize

text \<open>
  The component's refs and state, and what it has registered with the host: its event
  listeners, the timeout of the loading delay (with the time it is due) and the
  animation frame request. \<open>clock\<close> is the host's time in milliseconds.
\<close>

record widget =
  isLoading :: bool
  webglSupported :: bool
  rotationSpeed :: number
  updates :: nat
  scene :: "scene option"
  listeners :: "dom_event list"
  timeout_due :: "nat option"
  frame_requested :: bool
  clock :: nat
  mounted :: bool

subsection \<open>Handlers of the mount effect\<close>

definition onMouseDown :: "number \<Rightarrow> number \<Rightarrow> scene \<Rightarrow> scene" where
  "onMouseDown x y sc = sc\<lparr>isDragging := True, previousPointerPosition := (x, y)\<rparr>"

definition onMouseUp :: "scene \<Rightarrow> scene" where
  "onMouseUp sc = sc\<lparr>isDragging := False\<rparr>"

definition rotate_by_drag :: "number \<Rightarrow> number \<Rightarrow> scene \<Rightarrow> scene" where
  \<comment> \<open>the four statements \<open>onMouseMove\<close> and \<open>onTouchMove\<close> share\<close>
  "rotate_by_drag x y sc =
     (let deltaX = num_sub x (fst (previousPointerPosition sc));
          deltaY = num_sub y (snd (previousPointerPosition sc))
      in sc\<lparr>rotation_y := num_add (rotation_y sc) (num_mul deltaX (lit (1 / 100))),
             rotation_x := num_add (rotation_x sc) (num_mul deltaY (lit (1 / 100))),
             previousPointerPosition := (x, y)\<rparr>)"

definition onMouseMove :: "number \<Rightarrow> number \<Rightarrow> scene \<Rightarrow> scene" where
  "onMouseMove x y sc = (if \<not> isDragging sc then sc else rotate_by_drag x y sc)"

definition onTouchStart :: "(number \<times> number) list \<Rightarrow> scene \<Rightarrow> scene" where
  "onTouchStart touches sc =
     (case touches of
        [touch] \<Rightarrow> sc\<lparr>isDragging := True, previousPointerPosition := touch\<rparr>
      | _ \<Rightarrow> sc)"

definition onTouchMove :: "(number \<times> number) list \<Rightarrow> scene \<Rightarrow> scene" where
  "onTouchMove touches sc =
     (if \<not> isDragging sc then sc
      else case touches of
             [touch] \<Rightarrow> rotate_by_drag (fst touch) (snd touch) sc
           | _ \<Rightarrow> sc)"

definition onTouchEnd :: "scene \<Rightarrow> scene" where
  "onTouchEnd sc = sc\<lparr>isDragging := False\<rparr>"

definition onResize :: "nat \<Rightarrow> nat \<Rightarrow> scene \<Rightarrow> scene" where
  \<comment> \<open>the arguments are the container's \<open>clientWidth\<close> and \<open>clientHeight\<close> at the event;
      \<open>container\<close> is the element the effect started with, so the guard \<open>!container\<close>
      never holds\<close>
  "onResize cw ch sc =
     (let aspect = num_div (number_of_nat cw) (number_of_nat ch)
      in sc\<lparr>camera_aspect := aspect, camera_projection := aspect, renderer_size := (cw, ch)\<rparr>)"

definition animate :: "number \<Rightarrow> scene \<Rightarrow> scene" where
  \<comment> \<open>one frame: the first two statements of \<open>animate\<close>, with the current speed\<close>
  "animate speed sc =
     sc\<lparr>rotation_y := num_add (rotation_y sc) speed,
        frames_rendered := Suc (frames_rendered sc)\<rparr>"

subsection \<open>The component\<close>

definition initial_widget :: widget where
  \<comment> \<open>the values of \<open>useRef\<close> and \<open>useState\<close> at the first render\<close>
  "initial_widget =
     \<lparr>isLoading = True, webglSupported = True, rotationSpeed = lit (1 / 100), updates = 0,
      scene = None, listeners = [], timeout_due = None, frame_requested = False,
      clock = 0, mounted = True\<rparr>"

definition new_scene :: "nat \<Rightarrow> nat \<Rightarrow> scene" where
  "new_scene cw ch =
     (let aspect = num_div (number_of_nat cw) (number_of_nat ch)
      in \<lparr>camera_aspect = aspect, camera_projection = aspect, renderer_size = (cw, ch),
          canvas_attached = True, renderer_disposed = False, geometry_disposed = False,
          material_disposed = False, rotation_x = Fin 0, rotation_y = Fin 0,
          isDragging = False, previousPointerPosition = (Fin 0, Fin 0),
          frames_rendered = 0\<rparr>)"

definition addEventListener :: "dom_event \<Rightarrow> widget \<Rightarrow> widget" where
  "addEventListener e w = w\<lparr>listeners := List.insert e (listeners w)\<rparr>"

definition removeEventListener :: "dom_event \<Rightarrow> widget \<Rightarrow> widget" where
  "removeEventListener e w = w\<lparr>listeners := removeAll e (listeners w)\<rparr>"

definition widget_events :: "dom_event list" where
  "widget_events =
     [Ev_mousedown, Ev_mouseup, Ev_mousemove, Ev_mouseleave,
      Ev_touchstart, Ev_touchmove, Ev_touchend, Ev_touchcancel, Ev_resize]"

definition mount_effect :: "host \<Rightarrow> nat \<Rightarrow> nat \<Rightarrow> widget \<Rightarrow> exn + widget" where
  \<comment> \<open>the body of \<open>useEffect\<close>, for a container of \<open>cw\<close> by \<open>ch\<close> pixels\<close>
  "mount_effect h cw ch w =
     (case isWebGLAvailable h of
        Inl e \<Rightarrow> Inl e
      | Inr False \<Rightarrow> Inr (w\<lparr>webglSupported := False\<rparr>)
      | Inr True \<Rightarrow>
          Inr ((fold addEventListener widget_events (w\<lparr>scene := Some (new_scene cw ch)\<rparr>))
                 \<lparr>timeout_due := Some (clock w + 500)\<rparr>))"

definition cleanup :: "widget \<Rightarrow> widget" where
  \<comment> \<open>the function the effect returns; after the early return there is none\<close>
  "cleanup w =
     (case scene w of
        None \<Rightarrow> w
      | Some sc \<Rightarrow>
          (fold removeEventListener widget_events w)
            \<lparr>scene := Some (sc\<lparr>canvas_attached := False, renderer_disposed := True,
                               geometry_disposed := True, material_disposed := True\<rparr>)\<rparr>)"

definition range_value :: "number \<Rightarrow> number \<Rightarrow> number \<Rightarrow> number" where
  \<comment> \<open>the value an \<open>input type="range"\<close> with these \<open>min\<close> and \<open>max\<close> reports for a
      requested value: the default (the midpoint) when that is no finite number, else the
      request brought into the bounds; the choice of a step inside the bounds is the
      request's\<close>
  "range_value lo hi v =
     (case v of
        Fin _ \<Rightarrow> (if num_less v lo then lo else if num_less hi v then hi else v)
      | _ \<Rightarrow> num_add lo (num_div (num_sub hi lo) (Fin 2)))"

definition onSpeedChange :: "number \<Rightarrow> widget \<Rightarrow> widget" where
  \<comment> \<open>the argument is \<open>parseFloat(e.target.value)\<close>\<close>
  "onSpeedChange v w = w\<lparr>rotationSpeed := v, updates := updates w + 1\<rparr>"

definition setIsLoading :: "bool \<Rightarrow> widget \<Rightarrow> widget" where
  \<comment> \<open>React drops a state update of a component that is no longer mounted\<close>
  "setIsLoading b w = (if mounted w then w\<lparr>isLoading := b\<rparr> else w)"

definition animate_frame :: "widget \<Rightarrow> widget" where
  \<comment> \<open>a call of \<open>animate\<close>: the frame, then \<open>requestAnimationFrame(animate)\<close>\<close>
  "animate_frame w =
     (case scene w of
        None \<Rightarrow> w
      | Some sc \<Rightarrow> w\<lparr>scene := Some (animate (rotationSpeed w) sc), frame_requested := True\<rparr>)"

definition timeout_callback :: "widget \<Rightarrow> widget" where
  "timeout_callback w = animate_frame (setIsLoading False w)"

subsection \<open>Events of the host\<close>

text \<open>
  What the host can do to a widget: deliver a pointer, touch or resize event (the
  handler runs when its listener is registered), move the range input (the control
  exists while the widget is mounted and shows the 3D view; its attributes are
  \<open>min="0"\<close> and \<open>max="0.1"\<close>, and \<open>parseFloat\<close> reads back the number its value
  string was written from), let time pass, run the timeout (once it is due) or the
  requested animation frame, and unmount the component. A request made with
  \<open>setTimeout\<close> or \<open>requestAnimationFrame\<close> stays with the host until it runs: the
  source never calls \<open>clearTimeout\<close> or \<open>cancelAnimationFrame\<close>.
\<close>

datatype event =
  MouseDown number number | MouseUp | MouseMove number number | MouseLeave
| TouchStart "(number \<times> number) list" | TouchMove "(number \<times> number) list"
| TouchEnd | TouchCancel
| Resize nat nat
| SpeedInput number
| Elapse nat
| TimeoutFires
| AnimationFrame
| Unmount

definition dispatch :: "dom_event \<Rightarrow> (scene \<Rightarrow> scene) \<Rightarrow> widget \<Rightarrow> widget" where
  "dispatch e handler w =
     (if e \<in> set (listeners w)
      then (case scene w of None \<Rightarrow> w | Some sc \<Rightarrow> w\<lparr>scene := Some (handler sc)\<rparr>)
      else w)"

fun step :: "event \<Rightarrow> widget \<Rightarrow> widget" where
  "step (MouseDown x y) w = dispatch Ev_mousedown (onMouseDown x y) w"
| "step MouseUp w = dispatch Ev_mouseup onMouseUp w"
| "step (MouseMove x y) w = dispatch Ev_mousemove (onMouseMove x y) w"
| "step MouseLeave w = dispatch Ev_mouseleave onMouseUp w"
| "step (TouchStart ts) w = dispatch Ev_touchstart (onTouchStart ts) w"
| "step (TouchMove ts) w = dispatch Ev_touchmove (onTouchMove ts) w"
| "step TouchEnd w = dispatch Ev_touchend onTouchEnd w"
| "step TouchCancel w = dispatch Ev_touchcancel onTouchEnd w"
| "step (Resize cw ch) w = dispatch Ev_resize (onResize cw ch) w"
| "step (SpeedInput v) w =
     (if mounted w \<and> webglSupported w
      then onSpeedChange (range_value (lit 0) (lit (1 / 10)) v) w else w)"
| "step (Elapse ms) w = w\<lparr>clock := clock w + ms\<rparr>"
| "step TimeoutFires w =
     (case timeout_due w of
        None \<Rightarrow> w
      | Some t \<Rightarrow> if t \<le> clock w then timeout_callback (w\<lparr>timeout_due := None\<rparr>) else w)"
| "step AnimationFrame w = (if frame_requested w then animate_frame w else w)"
| "step Unmount w = (if mounted w then (cleanup w)\<lparr>mounted := False\<rparr> else w)"

definition run :: "widget \<Rightarrow> event list \<Rightarrow> widget" where
  "run w evs = foldl (\<lambda>s e. step e s) w evs"

definition lifetime :: "host \<Rightarrow> nat \<Rightarrow> nat \<Rightarrow> event list \<Rightarrow> exn + widget" where
  \<comment> \<open>mount in a container of \<open>cw\<close> by \<open>ch\<close> pixels, then the events in order\<close>
  "lifetime h cw ch evs =
     (case mount_effect h cw ch initial_widget of
        Inl e \<Rightarrow> Inl e
      | Inr w \<Rightarrow> Inr (run w evs))"

subsection \<open>What the component renders\<close>

datatype view =
  FallbackView string string
| WidgetView bool number "string option"

definition render :: "widget \<Rightarrow> view" where
  \<comment> \<open>the fallback's message and image; else whether the spinner shows, the slider's
      value and the readout\<close>
  "render w =
     (if \<not> webglSupported w
      then FallbackView ''Your browser does not support WebGL.'' ''/fallback.png''
      else WidgetView (isLoading w) (rotationSpeed w) (toFixed3 (rotationSpeed w)))"

subsection \<open>Observations\<close>

definition rotation :: "widget \<Rightarrow> (number \<times> number) option" where
  \<comment> \<open>the cube's \<open>rotation.x\<close> and \<open>rotation.y\<close>, when there is a cube\<close>
  "rotation w = map_option (\<lambda>sc. (rotation_x sc, rotation_y sc)) (scene w)"

definition dragging :: "widget \<Rightarrow> bool" where
  "dragging w = (case scene w of None \<Rightarrow> False | Some sc \<Rightarrow> isDragging sc)"

definition frames :: "widget \<Rightarrow> nat" where
  "frames w = (case scene w of None \<Rightarrow> 0 | Some sc \<Rightarrow> frames_rendered sc)"

subsection \<open>Hosts and a mounted widget to compute with\<close>

definition webgl_host :: host where
  "webgl_host =
     \<lparr>createElement_canvas = Returns (), WebGLRenderingContext = Returns True,
      getContext_webgl = Returns True, getContext_experimental_webgl = Returns True\<rparr>"

definition no_webgl_host :: host where
  "no_webgl_host =
     \<lparr>createElement_canvas = Returns (), WebGLRenderingContext = Returns False,
      getContext_webgl = Returns False, getContext_experimental_webgl = Returns False\<rparr>"

definition mounted_3d :: "nat \<Rightarrow> nat \<Rightarrow> widget" where
  \<comment> \<open>the widget right after a mount effect whose probe succeeded\<close>
  "mounted_3d cw ch =
     \<lparr>isLoading = True, webglSupported = True, rotationSpeed = lit (1 / 100), updates = 0,
      scene = Some (new_scene cw ch), listeners = rev widget_events, timeout_due = Some 500,
      frame_requested = False, clock = 0, mounted = True\<rparr>"

subsection \<open>The specification's words for a drag\<close>

text \<open>
  The increments the specification sums over a drag: for each move event, the current
  position minus the previous one, times \<open>0.01\<close>, where the previous position of the
  first move is the press position. The first component is the one for \<open>rotation.y\<close>
  (from the X coordinates), the second the one for \<open>rotation.x\<close>. \<open>num_sum\<close> adds them
  to a start value in the order of the events, as repeated \<open>+=\<close> does.
\<close>

fun drag_deltas :: "number \<times> number \<Rightarrow> (number \<times> number) list \<Rightarrow> (number \<times> number) list" where
  "drag_deltas p [] = []"
| "drag_deltas p (q # qs) =
     (num_mul (num_sub (fst q) (fst p)) (lit (1 / 100)),
      num_mul (num_sub (snd q) (snd p)) (lit (1 / 100))) # drag_deltas q qs"

definition num_sum :: "number \<Rightarrow> number list \<Rightarrow> number" where
  "num_sum x ds = foldl num_add x ds"

fun pointer_event :: "event \<Rightarrow> bool" where
  "pointer_event (MouseDown x y) = True"
| "pointer_event MouseUp = True"
| "pointer_event (MouseMove x y) = True"
| "pointer_event MouseLeave = True"
| "pointer_event (TouchStart ts) = True"
| "pointer_event (TouchMove ts) = True"
| "pointer_event TouchEnd = True"
| "pointer_event TouchCancel = True"
| "pointer_event _ = False"

subsection \<open>Invariants of the widget's lifetime\<close>

definition live :: "widget \<Rightarrow> bool" where
  "live w \<longleftrightarrow> mounted w \<and> webglSupported w \<and> scene w \<noteq> None \<and>
     set (listeners w) = set widget_events"

definition fallen_back :: "widget \<Rightarrow> bool" where
  "fallen_back w \<longleftrightarrow> \<not> webglSupported w \<and> scene w = None \<and> listeners w = [] \<and>
     timeout_due w = None \<and> \<not> frame_requested w \<and> isLoading w \<and>
     rotationSpeed w = lit (1 / 100) \<and> updates w = 0"

definition delay_inv :: "widget \<Rightarrow> bool" where
  "delay_inv w \<longleftrightarrow>
     (case timeout_due w of
        Some t \<Rightarrow> t = 500 \<and> frames w = 0 \<and> \<not> frame_requested w
      | None \<Rightarrow> scene w \<noteq> None \<longrightarrow> 500 \<le> clock w)"

definition loading_inv :: "widget \<Rightarrow> bool" where
  "loading_inv w \<longleftrightarrow> mounted w \<and> (isLoading w \<longleftrightarrow> timeout_due w = Some 500) \<and>
     (timeout_due w = None \<longrightarrow> 500 \<le> clock w) \<and>
     (timeout_due w = None \<or> timeout_due w = Some 500)"

definition speed_inv :: "widget \<Rightarrow> bool" where
  "speed_inv w \<longleftrightarrow> num_le (Fin 0) (rotationSpeed w) \<and> num_le (rotationSpeed w) (lit (1 / 10))"

definition f64_inv :: "widget \<Rightarrow> bool" where
  "f64_inv w \<longleftrightarrow> (case scene w of None \<Rightarrow> True | Some sc \<Rightarrow> is_f64 (rotation_y sc))"

section \<open>Properties of the rounding\<close>

text \<open>
  \<open>flog2\<close> finds the binade of a positive rational, so \<open>r64\<close> can be computed once the
  binade is known (\<open>r64_normal\<close>). A value on the binary64 grid is left as it is
  (\<open>r64_grid\<close>), hence rounding twice is rounding once (\<open>r64_idem\<close>): whatever an
  arithmetic operation returns is a value a Number can hold.
\<close>

lemma bitlen_powi:
  assumes "0 < p"
  shows "(2::rat) powi (bitlen p - 1) \<le> of_int p" "of_int p < (2::rat) powi (bitlen p)"
proof -
  from bitlen_bounds[OF assms] have a: "2 ^ nat (bitlen p - 1) \<le> p" and b: "p < 2 ^ nat (bitlen p)"
    by auto
  have ge: "1 \<le> bitlen p" using assms by (auto simp: bitlen_alt_def)
  have "(of_int (2 ^ nat (bitlen p - 1)) :: rat) \<le> of_int p" using a by (simp only: of_int_le_iff)
  then show "(2::rat) powi (bitlen p - 1) \<le> of_int p" using ge by (simp add: power_int_def)
  have "(of_int p :: rat) < of_int (2 ^ nat (bitlen p))" using b by (simp only: of_int_less_iff)
  then show "of_int p < (2::rat) powi (bitlen p)" using ge by (simp add: power_int_def)
qed

lemma pow2_pos: "0 < (2::rat) powi a"
  by (simp add: zero_less_power_int)

lemma pow2_less_iff: "(2::rat) powi a < 2 powi b \<longleftrightarrow> a < b"
  by (metis linorder_less_linear numeral_One numeral_less_iff
    order_less_imp_not_less power_int_strict_increasing semiring_norm(76))

lemma pow2_le_iff: "(2::rat) powi a \<le> 2 powi b \<longleftrightarrow> a \<le> b"
  using pow2_less_iff[of b a] by (simp add: not_less[symmetric])

lemma pow2_diff: "(2::rat) powi a / 2 powi b = 2 powi (a - b)"
  by (simp add: power_int_diff)

lemma flog2_bounds:
  assumes "0 < x"
  shows "2 powi (flog2 x) \<le> x" "x < 2 powi (flog2 x + 1)"
proof -
  obtain p q where pq: "quotient_of x = (p, q)" by (cases "quotient_of x")
  have q: "0 < q" using pq by (rule quotient_of_denom_pos)
  have x: "x = of_int p / of_int q" using pq by (rule quotient_of_div)
  have p: "0 < p" using assms q x by (simp add: zero_less_divide_iff)
  define d where "d = bitlen p - bitlen q"
  note bp = bitlen_powi[OF p] and bq = bitlen_powi[OF q]
  have "x < 2 powi (bitlen p) / of_int q"
    unfolding x using bp(2) q by (simp add: divide_strict_right_mono)
  also have "\<dots> \<le> 2 powi (bitlen p) / 2 powi (bitlen q - 1)"
    using bq(1) q by (intro divide_left_mono) (auto simp: pow2_pos less_imp_le mult_pos_pos)
  also have "\<dots> = 2 powi (d + 1)"
    by (simp add: pow2_diff d_def algebra_simps)
  finally have up: "x < 2 powi (d + 1)" .
  have "2 powi (d - 1) = (2::rat) powi (bitlen p - 1) / 2 powi (bitlen q)"
    by (simp add: pow2_diff d_def algebra_simps)
  also have "\<dots> \<le> of_int p / 2 powi (bitlen q)"
    using bp(1) pow2_pos[of "bitlen q"] by (simp add: divide_right_mono)
  also have "\<dots> \<le> of_int p / of_int q"
    using bq(2) p q by (intro divide_left_mono) (auto simp: pow2_pos less_imp_le)
  finally have lo: "2 powi (d - 1) \<le> x" by (simp add: x)
  have f: "flog2 x = (if 2 powi d \<le> x then d else d - 1)"
    by (simp add: flog2_def pq d_def Let_def)
  show "2 powi (flog2 x) \<le> x" using lo by (simp add: f)
  show "x < 2 powi (flog2 x + 1)" using up by (simp add: f not_le)
qed

lemma flog2_unique:
  assumes "0 < x" "2 powi e \<le> x" "x < 2 powi (e + 1)"
  shows "flog2 x = e"
proof -
  from flog2_bounds[OF assms(1)] assms(2,3)
  have "(2::rat) powi (flog2 x) < 2 powi (e + 1)" "(2::rat) powi e < 2 powi (flog2 x + 1)"
    by linarith+
  then show ?thesis by (simp add: pow2_less_iff)
qed

lemma rte_of_int: "round_ties_even (of_int m) = m"
  by (simp add: round_ties_even_def)

lemma rte_le:
  assumes "x \<le> of_int N"
  shows "round_ties_even x \<le> N"
proof (cases "\<lfloor>x\<rfloor> = N")
  case True
  then have "x = of_int N" using assms by (metis of_int_floor_le order_antisym)
  then show ?thesis by (simp add: rte_of_int)
next
  case False
  moreover have "\<lfloor>x\<rfloor> \<le> N" using assms by (simp add: floor_le_iff)
  ultimately have "\<lfloor>x\<rfloor> + 1 \<le> N" by simp
  then show ?thesis by (simp add: round_ties_even_def Let_def)
qed

lemma rte_nonneg: "0 \<le> x \<Longrightarrow> 0 \<le> round_ties_even x"
  by (simp add: round_ties_even_def Let_def)

lemma r64_pos_unfold:
  assumes "0 < x"
  shows "r64 x = (let u = 2 powi (max (flog2 x) (- 1022) - 52);
                      y = of_int (round_ties_even (x / u)) * u
                  in if 2 powi 1024 \<le> y then PosInf else Fin y)"
  using assms by (simp add: r64_def Let_def)

lemma r64_normal:
  assumes "0 < x" "2 powi e \<le> x" "x < 2 powi (e + 1)" "- 1022 \<le> e" "e \<le> 1022"
  shows "r64 x = Fin (of_int (round_ties_even (x / 2 powi (e - 52))) * 2 powi (e - 52))"
proof -
  define u :: rat where "u = 2 powi (e - 52)"
  have u: "0 < u" by (simp add: u_def pow2_pos)
  have fl: "flog2 x = e" using assms(1-3) by (rule flog2_unique)
  have "x / u < 2 powi (e + 1) / u" using assms(3) u by (simp add: divide_strict_right_mono)
  also have "\<dots> = 2 ^ 53" by (simp add: u_def pow2_diff)
  finally have "x / u \<le> of_int (2 ^ 53)" by simp
  then have n: "round_ties_even (x / u) \<le> 2 ^ 53" by (rule rte_le)
  have "of_int (round_ties_even (x / u)) * u \<le> of_int (2 ^ 53) * u"
    using n u by (intro mult_right_mono) (simp_all only: of_int_le_iff less_imp_le)
  also have "\<dots> = 2 powi (e + 1)"
  proof -
    have "(2::rat) powi 53 * 2 powi (e - 52) = 2 powi (53 + (e - 52))"
      by (subst power_int_add) simp_all
    then show ?thesis by (simp add: u_def add.commute)
  qed
  also have "\<dots> < 2 powi 1024"
    using assms(5) by (simp only: pow2_less_iff)
  finally have "\<not> 2 powi 1024 \<le> of_int (round_ties_even (x / u)) * u" by simp
  then show ?thesis
    using assms(1,4) by (simp add: r64_pos_unfold fl Let_def u_def max_def)
qed

lemma floor_rat_numeral: "\<lfloor>numeral a / numeral b :: rat\<rfloor> = numeral a div numeral b"
  using floor_divide_of_int_eq[of "numeral a" "numeral b", where ?'a = rat] by simp

lemma r64_minus: "r64 (- x) = num_neg (r64 x)"
  by (cases "x = 0") (auto simp: r64_def Let_def)

lemma r64_grid:
  assumes n: "0 < n" "n < 2 ^ 53" and k: "- 1074 \<le> k"
    and fin: "of_int n * 2 powi k < (2::rat) powi 1024"
  shows "r64 (of_int n * 2 powi k) = Fin (of_int n * 2 powi k)"
proof -
  define y :: rat where "y = of_int n * 2 powi k"
  have y: "0 < y" using n(1) by (simp add: y_def pow2_pos)
  define e' where "e' = max (flog2 y) (- 1022)"
  have "2 powi (flog2 y) \<le> y" using y by (rule flog2_bounds)
  also have "y < of_int (2 ^ 53) * 2 powi k"
    unfolding y_def using n(2) by (intro mult_strict_right_mono) (simp_all only: of_int_less_iff pow2_pos)
  also have "\<dots> = 2 powi (k + 53)"
  proof -
    have "(2::rat) powi 53 * 2 powi k = 2 powi (53 + k)"
      by (subst power_int_add) simp_all
    then show ?thesis by (simp add: add.commute)
  qed
  finally have "flog2 y < k + 53" by (simp only: pow2_less_iff)
  then have e': "e' - 52 \<le> k" using k by (simp add: e'_def)
  define j where "j = nat (k - (e' - 52))"
  have "(2::rat) powi (k - (e' - 52)) = 2 ^ j"
    using e' by (simp add: j_def power_int_def)
  moreover have "(2::rat) powi ((k - (e' - 52)) + (e' - 52)) = 2 powi (k - (e' - 52)) * 2 powi (e' - 52)"
    by (subst power_int_add) simp_all
  ultimately have pk: "(2::rat) powi k = 2 ^ j * 2 powi (e' - 52)"
    by simp
  have q: "y / 2 powi (e' - 52) = of_int (n * 2 ^ j)"
    using pow2_pos[of "e' - 52"] by (simp add: y_def pk)
  have "r64 y = (let u = 2 powi (e' - 52); z = of_int (round_ties_even (y / u)) * u
                  in if 2 powi 1024 \<le> z then PosInf else Fin z)"
    using y by (simp add: r64_pos_unfold e'_def)
  also have "\<dots> = Fin y"
    using fin by (simp add: Let_def q rte_of_int del: of_int_mult of_int_power) (simp add: y_def pk)
  finally show ?thesis by (simp add: y_def)
qed

lemma r64_idem_pos:
  assumes "0 < x" "r64 x = Fin y"
  shows "r64 y = Fin y"
proof -
  define e' where "e' = max (flog2 x) (- 1022)"
  define u :: rat where "u = 2 powi (e' - 52)"
  define n where "n = round_ties_even (x / u)"
  have u: "0 < u" by (simp add: u_def pow2_pos)
  have "r64 x = (if 2 powi 1024 \<le> of_int n * u then PosInf else Fin (of_int n * u))"
    using assms(1) by (simp add: r64_pos_unfold Let_def e'_def u_def n_def)
  with assms(2) have y: "y = of_int n * u" and fin: "of_int n * u < 2 powi 1024"
    by (auto split: if_splits)
  have "x < 2 powi (flog2 x + 1)" using assms(1) by (rule flog2_bounds)
  also have "\<dots> \<le> 2 powi (e' + 1)" by (simp add: pow2_le_iff e'_def)
  finally have "x / u < 2 powi (e' + 1) / u" using u by (simp add: divide_strict_right_mono)
  also have "\<dots> = 2 ^ 53" by (simp add: u_def pow2_diff)
  finally have "x / u \<le> of_int (2 ^ 53)" by simp
  then have n_le: "n \<le> 2 ^ 53" unfolding n_def by (rule rte_le)
  have n_ge: "0 \<le> n" unfolding n_def using assms(1) u by (intro rte_nonneg) simp
  consider "n = 0" | "0 < n" "n < 2 ^ 53" | "n = 2 ^ 53"
    using n_le n_ge by linarith
  then show ?thesis
  proof cases
    case 1
    then show ?thesis by (simp add: y r64_def)
  next
    case 2
    have "r64 (of_int n * 2 powi (e' - 52)) = Fin (of_int n * 2 powi (e' - 52))"
      using 2 fin by (intro r64_grid) (simp_all add: e'_def u_def)
    then show ?thesis by (simp add: y u_def)
  next
    case 3
    have "(2::rat) powi (1 + (e' - 52)) = 2 powi 1 * 2 powi (e' - 52)"
      by (subst power_int_add) simp_all
    then have eq: "of_int n * u = of_int (2 ^ 52) * 2 powi (e' - 51)"
      by (simp add: 3 u_def)
    have "r64 (of_int (2 ^ 52) * 2 powi (e' - 51)) = Fin (of_int (2 ^ 52) * 2 powi (e' - 51))"
      using fin unfolding eq by (intro r64_grid) (simp_all add: e'_def)
    then show ?thesis by (simp only: y eq)
  qed
qed

lemma r64_idem:
  assumes "r64 x = Fin y"
  shows "r64 y = Fin y"
proof -
  consider "x = 0" | "0 < x" | "0 < - x" by linarith
  then show ?thesis
  proof cases
    case 1
    then show ?thesis using assms by (simp add: r64_def)
  next
    case 2
    then show ?thesis using assms by (rule r64_idem_pos)
  next
    case 3
    have "r64 (- x) = Fin (- y)" using assms by (simp add: r64_minus)
    with 3 have "r64 (- y) = Fin (- y)" by (rule r64_idem_pos)
    then have "num_neg (r64 y) = Fin (- y)" by (simp add: r64_minus)
    then show ?thesis by (cases "r64 y") simp_all
  qed
qed

section \<open>The capability probe never throws\<close>

lemma isWebGLAvailable_returns: "\<exists>b. isWebGLAvailable h = Inr b"
  by (cases "probe_attempt h") (auto simp: isWebGLAvailable_def)

lemma isWebGLAvailable_true_iff:
  "isWebGLAvailable h = Inr True \<longleftrightarrow>
     (\<exists>u. createElement_canvas h = Returns u) \<and> WebGLRenderingContext h = Returns True \<and>
     (getContext_webgl h = Returns True \<or>
      getContext_webgl h = Returns False \<and> getContext_experimental_webgl h = Returns True)"
  by (auto simp: isWebGLAvailable_def probe_attempt_def split: sum.splits outcome.splits bool.splits)

text \<open>
  C9. The probe is total: for every host it returns a boolean and never an exception,
  and whenever its attempt throws it returns false. It returns true only if the
  capability marker \<open>window.WebGLRenderingContext\<close> is there and \<open>getContext\<close> returned
  a context on the throwaway canvas (for \<open>"webgl"\<close> or for \<open>"experimental-webgl"\<close>).
\<close>

theorem isWebGLAvailable_total_and_sound:
  "(\<exists>b. isWebGLAvailable h = Inr b) \<and>
   (\<forall>e. probe_attempt h = Inl e \<longrightarrow> isWebGLAvailable h = Inr False) \<and>
   (isWebGLAvailable h = Inr True \<longrightarrow>
      WebGLRenderingContext h = Returns True \<and>
      (getContext_webgl h = Returns True \<or> getContext_experimental_webgl h = Returns True))"
proof (intro conjI allI impI)
  show "\<exists>b. isWebGLAvailable h = Inr b" by (rule isWebGLAvailable_returns)
next
  fix e assume "probe_attempt h = Inl e"
  then show "isWebGLAvailable h = Inr False" by (simp add: isWebGLAvailable_def)
next
  assume t: "isWebGLAvailable h = Inr True"
  then show "WebGLRenderingContext h = Returns True"
    by (simp add: isWebGLAvailable_true_iff)
  from t show "getContext_webgl h = Returns True \<or> getContext_experimental_webgl h = Returns True"
    by (auto simp: isWebGLAvailable_true_iff)
qed

theorem isWebGLAvailable_total_and_sound_witness:
  "isWebGLAvailable \<lparr>createElement_canvas = Returns (), WebGLRenderingContext = Returns True,
      getContext_webgl = Returns False, getContext_experimental_webgl = Returns True\<rparr> = Inr True \<and>
   probe_attempt \<lparr>createElement_canvas = Returns (), WebGLRenderingContext = Returns True,
      getContext_webgl = Throws, getContext_experimental_webgl = Returns True\<rparr> = Inl Exn \<and>
   isWebGLAvailable \<lparr>createElement_canvas = Returns (), WebGLRenderingContext = Returns True,
      getContext_webgl = Throws, getContext_experimental_webgl = Returns True\<rparr> = Inr False"
  using isWebGLAvailable_total_and_sound
    [of "\<lparr>createElement_canvas = Returns (), WebGLRenderingContext = Returns True,
          getContext_webgl = Returns False, getContext_experimental_webgl = Returns True\<rparr>"]
    isWebGLAvailable_total_and_sound
    [of "\<lparr>createElement_canvas = Returns (), WebGLRenderingContext = Returns True,
          getContext_webgl = Throws, getContext_experimental_webgl = Returns True\<rparr>"]
  by (simp add: isWebGLAvailable_def probe_attempt_def)

section \<open>Evaluating the rounding on the literals of the source\<close>

text \<open>
  The literals of the source and the arithmetic of the specification's scenarios,
  computed by \<open>r64_normal\<close> in the binade each value lies in. The last lemma is the sum
  of one hundred additions of \<open>0.01\<close>, starting from 0.
\<close>

lemmas rte_eval = round_ties_even_def Let_def floor_rat_numeral

lemma lit_0: "lit 0 = Fin 0"
  by (simp add: lit_def r64_def)

lemma lit_001: "lit (1 / 100) = Fin (5764607523034235 / 576460752303423488)"
  by (simp add: lit_def r64_normal[where e = "-7"] rte_eval)

lemma lit_01: "lit (1 / 10) = Fin (3602879701896397 / 36028797018963968)"
  by (simp add: lit_def r64_normal[where e = "-4"] rte_eval)

lemma lit_03: "lit (3 / 10) = Fin (5404319552844595 / 18014398509481984)"
  by (simp add: lit_def r64_normal[where e = "-2"] rte_eval)

lemma delta_50: "num_mul (num_sub (Fin 150) (Fin 100)) (lit (1 / 100)) = Fin (1 / 2)"
  by (simp add: num_sub_def lit_001 r64_normal[where e = 5] r64_normal[where e = "-1"] rte_eval)

lemma delta_30: "num_mul (num_sub (Fin 130) (Fin 100)) (lit (1 / 100)) = lit (3 / 10)"
  by (simp add: num_sub_def lit_001 lit_03 r64_normal[where e = 4] r64_normal[where e = "-2"] rte_eval)

lemma aspect_300_200: "num_div (number_of_nat 300) (number_of_nat 200) = Fin (3 / 2)"
  by (simp add: number_of_nat_def r64_normal[where e = 8] r64_normal[where e = 7]
      r64_normal[where e = 0] rte_eval)

lemma is_f64_r64: "is_f64 (r64 x)"
  by (cases "r64 x") (simp_all add: is_f64_def r64_idem)

lemma is_f64_add: "is_f64 (num_add a b)"
  by (cases a; cases b) (simp_all add: is_f64_r64, simp_all add: is_f64_def)

lemma num_add_zero: "is_f64 x \<Longrightarrow> num_add x (Fin 0) = x"
  by (cases x) (simp_all add: is_f64_def)

lemma range_default:
  "num_add (lit 0) (num_div (num_sub (lit (1 / 10)) (lit 0)) (Fin 2)) =
     Fin (3602879701896397 / 72057594037927936)"
  by (simp add: lit_0 lit_01 num_sub_def r64_normal[where e = "-4"] r64_normal[where e = "-5"] rte_eval)

lemma range_value_bounds:
  "num_le (Fin 0) (range_value (lit 0) (lit (1 / 10)) v) \<and>
   num_le (range_value (lit 0) (lit (1 / 10)) v) (lit (1 / 10))"
proof (cases v)
  case (Fin a)
  then show ?thesis by (simp add: range_value_def lit_0 lit_01)
next
  case PosInf
  then show ?thesis by (simp add: range_value_def range_default) (simp add: lit_01)
next
  case NegInf
  then show ?thesis by (simp add: range_value_def range_default) (simp add: lit_01)
next
  case NaN
  then show ?thesis by (simp add: range_value_def range_default) (simp add: lit_01)
qed

lemma digits10_1: "digits10 1 = ''1''" "digits10 (Suc 0) = ''1''"
  by (subst digits10.simps, simp add: digit_char_def)+

lemma digits10_10: "digits10 10 = ''10''"
  by (subst digits10.simps) (simp add: digits10_1 digit_char_def)

lemma toFixed3_default: "toFixed3 (lit (1 / 100)) = Some ''0.010''"
  by (simp add: lit_001 toFixed3_def Let_def floor_rat_numeral digits10_10)

lemma hundred_frames:
  "((\<lambda>y. num_add y (lit (1 / 100))) ^^ 100) (Fin 0) = Fin (1 + 3 / 2 ^ 52)"
  by (simp add: lit_001 eval_nat_numeral rte_eval
      r64_normal[where e = "-7"] r64_normal[where e = "-6"] r64_normal[where e = "-5"]
      r64_normal[where e = "-4"] r64_normal[where e = "-3"] r64_normal[where e = "-2"]
      r64_normal[where e = "-1"] r64_normal[where e = "0"])

section \<open>Mounting and running\<close>

text \<open>
  The mount effect always returns: with a scene, all nine listeners and the timeout when
  the probe succeeds, and with nothing but the cleared flag \<open>webglSupported\<close> when it
  fails. A property that every event preserves holds after every run.
\<close>

lemma run_Nil [simp]: "run w [] = w"
  by (simp add: run_def)

lemma run_Cons [simp]: "run w (e # evs) = run (step e w) evs"
  by (simp add: run_def)

lemma run_append: "run w (xs @ ys) = run (run w xs) ys"
  by (simp add: run_def)

lemma dispatch_Some:
  "e \<in> set (listeners w) \<Longrightarrow> scene w = Some sc \<Longrightarrow> dispatch e f w = w\<lparr>scene := Some (f sc)\<rparr>"
  by (simp add: dispatch_def)

lemmas step_defs = dispatch_def onMouseDown_def onMouseUp_def onMouseMove_def onTouchStart_def
  onTouchMove_def onTouchEnd_def onResize_def onSpeedChange_def timeout_callback_def
  animate_frame_def setIsLoading_def cleanup_def rotate_by_drag_def animate_def Let_def

lemma fold_add_listeners: "listeners (fold addEventListener es w) = fold List.insert es (listeners w)"
  by (induction es arbitrary: w) (simp_all add: addEventListener_def)

lemma fold_add_other:
  "scene (fold addEventListener es w) = scene w"
  "mounted (fold addEventListener es w) = mounted w"
  "webglSupported (fold addEventListener es w) = webglSupported w"
  "isLoading (fold addEventListener es w) = isLoading w"
  "rotationSpeed (fold addEventListener es w) = rotationSpeed w"
  "timeout_due (fold addEventListener es w) = timeout_due w"
  "frame_requested (fold addEventListener es w) = frame_requested w"
  "clock (fold addEventListener es w) = clock w"
  "updates (fold addEventListener es w) = updates w"
  by (induction es arbitrary: w; simp add: addEventListener_def)+

lemma fold_remove_other:
  "scene (fold removeEventListener es w) = scene w"
  "mounted (fold removeEventListener es w) = mounted w"
  "webglSupported (fold removeEventListener es w) = webglSupported w"
  "isLoading (fold removeEventListener es w) = isLoading w"
  "rotationSpeed (fold removeEventListener es w) = rotationSpeed w"
  "timeout_due (fold removeEventListener es w) = timeout_due w"
  "frame_requested (fold removeEventListener es w) = frame_requested w"
  "clock (fold removeEventListener es w) = clock w"
  "updates (fold removeEventListener es w) = updates w"
  by (induction es arbitrary: w; simp add: removeEventListener_def)+

lemma set_fold_insert: "set (fold List.insert es xs) = set es \<union> set xs"
  by (induction es arbitrary: xs) auto

lemma mount_ok:
  assumes "isWebGLAvailable h = Inr True"
  shows "\<exists>w. mount_effect h cw ch initial_widget = Inr w \<and> live w \<and>
           scene w = Some (new_scene cw ch) \<and> timeout_due w = Some 500 \<and>
           \<not> frame_requested w \<and> isLoading w \<and> clock w = 0 \<and>
           rotationSpeed w = lit (1 / 100) \<and> updates w = 0"
  using assms
  by (simp add: mount_effect_def live_def fold_add_other fold_add_listeners set_fold_insert
      initial_widget_def)

lemma mount_fallback:
  assumes "isWebGLAvailable h = Inr False"
  shows "mount_effect h cw ch initial_widget = Inr (initial_widget\<lparr>webglSupported := False\<rparr>)"
  using assms by (simp add: mount_effect_def)

lemma mount_returns: "\<exists>w. mount_effect h cw ch initial_widget = Inr w"
proof -
  obtain b where "isWebGLAvailable h = Inr b" using isWebGLAvailable_returns by blast
  then show ?thesis by (cases b) (simp_all add: mount_effect_def)
qed

lemma lifetime_returns: "\<exists>w. lifetime h cw ch evs = Inr w"
  using mount_returns[of h cw ch] by (auto simp: lifetime_def)

lemma webgl_host_ok: "isWebGLAvailable webgl_host = Inr True"
  by (simp add: isWebGLAvailable_def probe_attempt_def webgl_host_def)

lemma no_webgl_host_fails: "isWebGLAvailable no_webgl_host = Inr False"
  by (simp add: isWebGLAvailable_def probe_attempt_def no_webgl_host_def)

lemma mounted_webgl: "lifetime webgl_host cw ch [] = Inr (mounted_3d cw ch)"
  by (simp add: lifetime_def mount_effect_def webgl_host_ok initial_widget_def widget_events_def
      addEventListener_def mounted_3d_def)

lemma mounted_3d_simps:
  "scene (mounted_3d cw ch) = Some (new_scene cw ch)"
  "set (listeners (mounted_3d cw ch)) = set widget_events"
  by (simp_all add: mounted_3d_def)

lemma run_invariant:
  assumes "\<And>w e. P w \<Longrightarrow> e \<in> set evs \<Longrightarrow> P (step e w)" and "P w"
  shows "P (run w evs)"
  using assms by (induction evs arbitrary: w) (auto simp del: step.simps)

lemma mount_cases:
  assumes "mount_effect h cw ch initial_widget = Inr w"
  obtains "isWebGLAvailable h = Inr False" "w = initial_widget\<lparr>webglSupported := False\<rparr>"
  | "isWebGLAvailable h = Inr True" "live w" "scene w = Some (new_scene cw ch)"
    "timeout_due w = Some 500" "\<not> frame_requested w" "isLoading w" "clock w = 0"
    "rotationSpeed w = lit (1 / 100)" "updates w = 0"
proof -
  obtain b where b: "isWebGLAvailable h = Inr b" using isWebGLAvailable_returns by blast
  show thesis
  proof (cases b)
    case True
    with b mount_ok[of h cw ch] assms that(2) show ?thesis by auto
  next
    case False
    with b mount_fallback[of h cw ch] assms that(1) show ?thesis by auto
  qed
qed

lemma lifetimeE:
  assumes "lifetime h cw ch evs = Inr w"
  obtains w0 where "mount_effect h cw ch initial_widget = Inr w0" "w = run w0 evs"
  using assms by (auto simp: lifetime_def split: sum.splits)

lemma lifetime_projr: "lifetime h cw ch evs = Inr (projr (lifetime h cw ch evs))"
  using lifetime_returns[of h cw ch evs] by auto

lemma step_live: "live w \<Longrightarrow> e \<noteq> Unmount \<Longrightarrow> live (step e w)"
  by (cases e) (auto simp: live_def step_defs fold_remove_other split: option.splits list.splits)

lemma run_live: "live w \<Longrightarrow> Unmount \<notin> set evs \<Longrightarrow> live (run w evs)"
  by (induction evs arbitrary: w) (auto simp: step_live simp del: step.simps)

lemma lifetime_live:
  assumes "isWebGLAvailable h = Inr True" "Unmount \<notin> set evs" "lifetime h cw ch evs = Inr w"
  shows "live w"
  using mount_ok[OF assms(1), of cw ch] assms(2,3) by (auto simp: lifetime_def run_live)

section \<open>Drag gestures\<close>

lemma drag_moves:
  assumes "isDragging sc" "previousPointerPosition sc = p"
  shows "foldl (\<lambda>s q. rotate_by_drag (fst q) (snd q) s) sc ms =
         sc\<lparr>rotation_y := num_sum (rotation_y sc) (map fst (drag_deltas p ms)),
            rotation_x := num_sum (rotation_x sc) (map snd (drag_deltas p ms)),
            previousPointerPosition := last (p # ms)\<rparr>"
  using assms
proof (induction ms arbitrary: sc p)
  case Nil
  then show ?case by (simp add: num_sum_def)
next
  case (Cons q qs)
  have "isDragging (rotate_by_drag (fst q) (snd q) sc)"
    using Cons.prems by (simp add: rotate_by_drag_def Let_def)
  moreover have "previousPointerPosition (rotate_by_drag (fst q) (snd q) sc) = q"
    by (simp add: rotate_by_drag_def Let_def)
  ultimately show ?case
    using Cons.prems by (simp add: Cons.IH[of _ q] num_sum_def) (simp add: rotate_by_drag_def Let_def)
qed

lemma run_mouse_moves:
  assumes "Ev_mousemove \<in> set (listeners w)" "scene w = Some sc" "isDragging sc"
  shows "run w (map (\<lambda>q. MouseMove (fst q) (snd q)) ms) =
         w\<lparr>scene := Some (foldl (\<lambda>s q. rotate_by_drag (fst q) (snd q) s) sc ms)\<rparr>"
  using assms
proof (induction ms arbitrary: w sc)
  case Nil
  then show ?case by simp
next
  case (Cons q qs)
  let ?sc = "rotate_by_drag (fst q) (snd q) sc"
  have s: "step (MouseMove (fst q) (snd q)) w = w\<lparr>scene := Some ?sc\<rparr>"
    using Cons.prems by (simp add: dispatch_Some onMouseMove_def)
  have "isDragging ?sc" using Cons.prems by (simp add: rotate_by_drag_def Let_def)
  then show ?case
    using Cons.prems Cons.IH[of "w\<lparr>scene := Some ?sc\<rparr>" ?sc]
    by (simp add: s del: step.simps)
qed

lemma run_touch_moves:
  assumes "Ev_touchmove \<in> set (listeners w)" "scene w = Some sc" "isDragging sc"
  shows "run w (map (\<lambda>q. TouchMove [q]) ms) =
         w\<lparr>scene := Some (foldl (\<lambda>s q. rotate_by_drag (fst q) (snd q) s) sc ms)\<rparr>"
  using assms
proof (induction ms arbitrary: w sc)
  case Nil
  then show ?case by simp
next
  case (Cons q qs)
  let ?sc = "rotate_by_drag (fst q) (snd q) sc"
  have s: "step (TouchMove [q]) w = w\<lparr>scene := Some ?sc\<rparr>"
    using Cons.prems by (simp add: dispatch_Some onTouchMove_def)
  have "isDragging ?sc" using Cons.prems by (simp add: rotate_by_drag_def Let_def)
  then show ?case
    using Cons.prems Cons.IH[of "w\<lparr>scene := Some ?sc\<rparr>" ?sc]
    by (simp add: s del: step.simps)
qed

lemma mouse_drag:
  assumes sc: "scene w = Some sc"
    and L: "Ev_mousedown \<in> set (listeners w)" "Ev_mousemove \<in> set (listeners w)"
           "Ev_mouseup \<in> set (listeners w)"
  shows "run w (MouseDown (fst p) (snd p) # map (\<lambda>q. MouseMove (fst q) (snd q)) ms @ [MouseUp]) =
         w\<lparr>scene := Some (sc\<lparr>rotation_y := num_sum (rotation_y sc) (map fst (drag_deltas p ms)),
                             rotation_x := num_sum (rotation_x sc) (map snd (drag_deltas p ms)),
                             previousPointerPosition := last (p # ms),
                             isDragging := False\<rparr>)\<rparr>"
proof -
  let ?sc1 = "onMouseDown (fst p) (snd p) sc"
  let ?w1 = "w\<lparr>scene := Some ?sc1\<rparr>"
  have 1: "step (MouseDown (fst p) (snd p)) w = ?w1"
    using sc L by (simp add: dispatch_Some)
  have d: "isDragging ?sc1" "previousPointerPosition ?sc1 = p"
    by (simp_all add: onMouseDown_def)
  have 2: "run ?w1 (map (\<lambda>q. MouseMove (fst q) (snd q)) ms) =
           ?w1\<lparr>scene := Some (foldl (\<lambda>s q. rotate_by_drag (fst q) (snd q) s) ?sc1 ms)\<rparr>"
    using L d by (intro run_mouse_moves) simp_all
  show ?thesis
    using L by (simp add: run_append 1 2 drag_moves[OF d] del: step.simps last.simps)
      (simp add: dispatch_Some onMouseUp_def onMouseDown_def)
qed

lemma touch_drag:
  assumes sc: "scene w = Some sc"
    and L: "Ev_touchstart \<in> set (listeners w)" "Ev_touchmove \<in> set (listeners w)"
           "Ev_touchend \<in> set (listeners w)"
  shows "run w (TouchStart [p] # map (\<lambda>q. TouchMove [q]) ms @ [TouchEnd]) =
         w\<lparr>scene := Some (sc\<lparr>rotation_y := num_sum (rotation_y sc) (map fst (drag_deltas p ms)),
                             rotation_x := num_sum (rotation_x sc) (map snd (drag_deltas p ms)),
                             previousPointerPosition := last (p # ms),
                             isDragging := False\<rparr>)\<rparr>"
proof -
  let ?sc1 = "onTouchStart [p] sc"
  let ?w1 = "w\<lparr>scene := Some ?sc1\<rparr>"
  have 1: "step (TouchStart [p]) w = ?w1"
    using sc L by (simp add: dispatch_Some)
  have d: "isDragging ?sc1" "previousPointerPosition ?sc1 = p"
    by (simp_all add: onTouchStart_def)
  have 2: "run ?w1 (map (\<lambda>q. TouchMove [q]) ms) =
           ?w1\<lparr>scene := Some (foldl (\<lambda>s q. rotate_by_drag (fst q) (snd q) s) ?sc1 ms)\<rparr>"
    using L d by (intro run_touch_moves) simp_all
  show ?thesis
    using L by (simp add: run_append 1 2 drag_moves[OF d] del: step.simps last.simps)
      (simp add: dispatch_Some onTouchEnd_def onTouchStart_def)
qed

text \<open>
  C1. A drag is a press at \<open>p\<close>, move events at the positions \<open>ms\<close> and a release,
  with the mouse or with one finger. Over the whole drag the gesture handlers add to
  \<open>rotation.y\<close>, one after the other, the increments (current X minus previous X) times
  \<open>0.01\<close>, and to \<open>rotation.x\<close> the increments (current Y minus previous Y) times
  \<open>0.01\<close>, the previous position of the first move being the press position: the
  rotation after the release is the rotation before the press plus the sum of these
  increments, each operation being JavaScript's. In particular a press at (100,100),
  one move to (150,130) and a release add \<open>0.5\<close> to \<open>rotation.y\<close> and \<open>0.3\<close> to
  \<open>rotation.x\<close>.
\<close>

theorem drag_rotation_accumulates_deltas:
  assumes "scene w = Some sc" and "set widget_events \<subseteq> set (listeners w)"
  shows
    "rotation (run w (MouseDown (fst p) (snd p) # map (\<lambda>q. MouseMove (fst q) (snd q)) ms @ [MouseUp])) =
       Some (num_sum (rotation_x sc) (map snd (drag_deltas p ms)),
             num_sum (rotation_y sc) (map fst (drag_deltas p ms))) \<and>
     rotation (run w (TouchStart [p] # map (\<lambda>q. TouchMove [q]) ms @ [TouchEnd])) =
       Some (num_sum (rotation_x sc) (map snd (drag_deltas p ms)),
             num_sum (rotation_y sc) (map fst (drag_deltas p ms))) \<and>
     rotation (run w [MouseDown (Fin 100) (Fin 100), MouseMove (Fin 150) (Fin 130), MouseUp]) =
       Some (num_add (rotation_x sc) (lit (3 / 10)), num_add (rotation_y sc) (Fin (1 / 2)))"
proof -
  have L: "Ev_mousedown \<in> set (listeners w)" "Ev_mousemove \<in> set (listeners w)"
    "Ev_mouseup \<in> set (listeners w)" "Ev_touchstart \<in> set (listeners w)"
    "Ev_touchmove \<in> set (listeners w)" "Ev_touchend \<in> set (listeners w)"
    using assms(2) by (auto simp: widget_events_def)
  note m = mouse_drag[OF assms(1) L(1-3)]
  have "run w [MouseDown (Fin 100) (Fin 100), MouseMove (Fin 150) (Fin 130), MouseUp] =
        run w (MouseDown (fst (Fin 100, Fin 100)) (snd (Fin 100, Fin 100)) #
          map (\<lambda>q. MouseMove (fst q) (snd q)) [(Fin 150, Fin 130)] @ [MouseUp])"
    by simp
  then have "rotation (run w [MouseDown (Fin 100) (Fin 100), MouseMove (Fin 150) (Fin 130), MouseUp]) =
       Some (num_add (rotation_x sc) (lit (3 / 10)), num_add (rotation_y sc) (Fin (1 / 2)))"
    by (simp only: m) (simp add: rotation_def num_sum_def delta_50 delta_30)
  then show ?thesis
    by (simp add: m touch_drag[OF assms(1) L(4-6)] rotation_def del: step.simps run_Cons)
qed

theorem drag_rotation_accumulates_deltas_witness:
  "scene (projr (lifetime webgl_host 600 400 [])) = Some (new_scene 600 400) \<and>
   set widget_events \<subseteq> set (listeners (projr (lifetime webgl_host 600 400 []))) \<and>
   rotation (run (projr (lifetime webgl_host 600 400 []))
      [MouseDown (Fin 100) (Fin 100), MouseMove (Fin 150) (Fin 130), MouseUp]) =
     Some (lit (3 / 10), Fin (1 / 2))"
proof -
  let ?w = "projr (lifetime webgl_host 600 400 [])"
  have 1: "scene ?w = Some (new_scene 600 400)"
    by (simp add: mounted_webgl mounted_3d_simps)
  have 2: "set widget_events \<subseteq> set (listeners ?w)"
    by (simp add: mounted_webgl mounted_3d_simps)
  have 3: "num_add (rotation_x (new_scene 600 400)) (lit (3 / 10)) = lit (3 / 10)"
    "num_add (rotation_y (new_scene 600 400)) (Fin (1 / 2)) = Fin (1 / 2)"
    by (simp_all add: new_scene_def Let_def lit_03 r64_normal[where e = "-2"]
        r64_normal[where e = "-1"] rte_eval)
  show ?thesis
    using drag_rotation_accumulates_deltas[OF 1 2, of "(Fin 100, Fin 100)" "[]"] 1 2
    by (simp only: 3)
qed

text \<open>
  C3. In every state of the widget, a touch-start or touch-move event that carries two
  or more contacts changes neither the cube's rotation nor the drag flag: it never takes
  the drag state from idle to dragging, and while a drag is active it adds no rotation.
  The two other touch events, touch-end and touch-cancel, do not look at the contacts:
  they leave the rotation alone and can only end a drag.
\<close>

theorem multi_touch_is_ignored:
  assumes "2 \<le> length ts"
  shows "rotation (step (TouchStart ts) w) = rotation w \<and>
         rotation (step (TouchMove ts) w) = rotation w \<and>
         dragging (step (TouchStart ts) w) = dragging w \<and>
         dragging (step (TouchMove ts) w) = dragging w \<and>
         rotation (step TouchEnd w) = rotation w \<and>
         rotation (step TouchCancel w) = rotation w \<and>
         (dragging (step TouchEnd w) \<longrightarrow> dragging w) \<and>
         (dragging (step TouchCancel w) \<longrightarrow> dragging w)"
proof -
  obtain a b cs where ts: "ts = a # b # cs"
    using assms by (cases ts; cases "tl ts") auto
  show ?thesis
    by (auto simp: ts rotation_def dragging_def dispatch_def onTouchStart_def onTouchMove_def
        onTouchEnd_def split: option.splits)
qed

theorem multi_touch_is_ignored_witness:
  "2 \<le> length [(Fin 10, Fin 10), (Fin 200, Fin 50)] \<and>
   rotation (step (TouchMove [(Fin 10, Fin 10), (Fin 200, Fin 50)])
      (run (projr (lifetime webgl_host 600 400 [])) [TouchStart [(Fin 0, Fin 0)]])) =
     Some (Fin 0, Fin 0) \<and>
   dragging (step (TouchStart [(Fin 10, Fin 10), (Fin 200, Fin 50)])
      (projr (lifetime webgl_host 600 400 []))) = False"
proof -
  let ?ts = "[(Fin 10, Fin 10), (Fin 200, Fin 50)]"
  let ?w = "projr (lifetime webgl_host 600 400 [])"
  have h: "2 \<le> length ?ts" by simp
  have 1: "rotation (run ?w [TouchStart [(Fin 0, Fin 0)]]) = Some (Fin 0, Fin 0)"
    by (simp add: mounted_webgl rotation_def dispatch_def mounted_3d_simps
        widget_events_def onTouchStart_def new_scene_def Let_def)
  have 2: "dragging ?w = False"
    by (simp add: mounted_webgl dragging_def mounted_3d_simps new_scene_def Let_def)
  show ?thesis
    using multi_touch_is_ignored[OF h, of "run ?w [TouchStart [(Fin 0, Fin 0)]]"]
      multi_touch_is_ignored[OF h, of ?w] 1 2
    by (simp del: step.simps run_Cons)
qed

section \<open>Resize\<close>

text \<open>
  C8. While the 3D view is mounted (the probe succeeded, no unmount yet), after a resize
  event with the container at \<open>cw\<close> by \<open>ch\<close> pixels the camera's aspect ratio is \<open>cw / ch\<close>
  (JavaScript's division), the projection has been recomputed from that aspect ratio,
  and the renderer has the container's size. This holds for every width and height and
  whatever happened before.
\<close>

theorem resize_sets_aspect_projection_and_size:
  assumes "isWebGLAvailable h = Inr True" and "Unmount \<notin> set evs"
    and "lifetime h cw0 ch0 (evs @ [Resize cw ch]) = Inr w"
  shows "\<exists>sc. scene w = Some sc \<and>
           camera_aspect sc = num_div (number_of_nat cw) (number_of_nat ch) \<and>
           camera_projection sc = camera_aspect sc \<and>
           renderer_size sc = (cw, ch)"
proof -
  obtain w' where w': "lifetime h cw0 ch0 evs = Inr w'"
    using lifetime_returns by blast
  then have "live w'" using assms(1,2) by (intro lifetime_live)
  then obtain sc where sc: "scene w' = Some sc" and r: "Ev_resize \<in> set (listeners w')"
    by (auto simp: live_def widget_events_def)
  have "w = step (Resize cw ch) w'"
    using assms(3) w' by (auto simp: lifetime_def run_append split: sum.splits)
  then show ?thesis
    using sc r by (simp add: dispatch_Some onResize_def Let_def)
qed

theorem resize_sets_aspect_projection_and_size_witness:
  "isWebGLAvailable webgl_host = Inr True \<and> Unmount \<notin> set [MouseDown (Fin 1) (Fin 1)] \<and>
   (\<exists>sc. scene (projr (lifetime webgl_host 600 400 ([MouseDown (Fin 1) (Fin 1)] @ [Resize 300 200]))) = Some sc \<and>
      camera_aspect sc = Fin (3 / 2) \<and> camera_projection sc = Fin (3 / 2) \<and>
      renderer_size sc = (300, 200))"
  using resize_sets_aspect_projection_and_size[OF webgl_host_ok _ lifetime_projr,
      of "[MouseDown (Fin 1) (Fin 1)]" 600 400 300 200]
  by (auto simp: webgl_host_ok aspect_300_200 simp del: step.simps)

section \<open>The fallback\<close>

lemma step_fallen_back: "fallen_back w \<Longrightarrow> fallen_back (step e w)"
  by (cases e) (auto simp: fallen_back_def step_defs)

lemma run_fallen_back: "fallen_back w \<Longrightarrow> fallen_back (run w evs)"
  by (rule run_invariant) (auto simp: step_fallen_back simp del: step.simps)

lemma lifetime_fallen_back:
  assumes "isWebGLAvailable h = Inr False" "lifetime h cw ch evs = Inr w"
  shows "fallen_back w"
proof -
  have "fallen_back (initial_widget\<lparr>webglSupported := False\<rparr>)"
    by (simp add: fallen_back_def initial_widget_def)
  then have "fallen_back (run (initial_widget\<lparr>webglSupported := False\<rparr>) evs)"
    by (rule run_fallen_back)
  then show ?thesis
    using assms by (simp add: lifetime_def mount_fallback)
qed

text \<open>
  C5. If the capability probe returns false at mount, then whatever events follow, the
  widget never has a scene (no renderer, camera or cube), no event listener, no timeout
  and no animation frame request, its rotation speed is never changed, and it renders the
  fallback view: the message and the fallback image.
\<close>

theorem no_webgl_means_fallback_only:
  assumes "isWebGLAvailable h = Inr False"
  shows "\<exists>w. lifetime h cw ch evs = Inr w \<and> scene w = None \<and> listeners w = [] \<and>
           timeout_due w = None \<and> \<not> frame_requested w \<and>
           rotationSpeed w = rotationSpeed initial_widget \<and> updates w = 0 \<and>
           render w = FallbackView ''Your browser does not support WebGL.'' ''/fallback.png''"
proof -
  define w where "w = run (initial_widget\<lparr>webglSupported := False\<rparr>) evs"
  have "fallen_back (initial_widget\<lparr>webglSupported := False\<rparr>)"
    by (simp add: fallen_back_def initial_widget_def)
  then have fb: "fallen_back w"
    unfolding w_def by (rule run_fallen_back)
  have lt: "lifetime h cw ch evs = Inr w"
    by (simp add: lifetime_def mount_fallback[OF assms] w_def)
  have sp: "rotationSpeed initial_widget = lit (1 / 100)"
    by (simp add: initial_widget_def)
  show ?thesis
    using fb by (intro exI[of _ w]) (simp add: lt sp fallen_back_def render_def)
qed

theorem no_webgl_means_fallback_only_witness:
  "isWebGLAvailable no_webgl_host = Inr False \<and>
   (\<exists>w. lifetime no_webgl_host 600 400
           [MouseDown (Fin 100) (Fin 100), MouseMove (Fin 150) (Fin 130), Resize 300 200,
            SpeedInput (Fin 0), Elapse 500, TimeoutFires, AnimationFrame] = Inr w \<and>
         scene w = None \<and> listeners w = [] \<and> timeout_due w = None \<and> \<not> frame_requested w \<and>
         render w = FallbackView ''Your browser does not support WebGL.'' ''/fallback.png'')"
  using no_webgl_means_fallback_only[OF no_webgl_host_fails, of 600 400
      "[MouseDown (Fin 100) (Fin 100), MouseMove (Fin 150) (Fin 130), Resize 300 200,
        SpeedInput (Fin 0), Elapse 500, TimeoutFires, AnimationFrame]"]
    no_webgl_host_fails
  by blast

section \<open>The loading delay and the render loop\<close>

lemma step_delay_inv: "delay_inv w \<Longrightarrow> delay_inv (step e w)"
  by (cases e) (auto simp: delay_inv_def frames_def step_defs fold_remove_other split: option.splits list.splits)

lemma lifetime_delay_inv:
  assumes "lifetime h cw ch evs = Inr w"
  shows "delay_inv w"
proof -
  from assms obtain w0 where w0: "mount_effect h cw ch initial_widget = Inr w0" "w = run w0 evs"
    by (rule lifetimeE)
  from w0(1) have "delay_inv w0"
    by (rule mount_cases) (simp_all add: delay_inv_def frames_def initial_widget_def new_scene_def Let_def)
  then show ?thesis
    unfolding w0(2) by (intro run_invariant[where P = delay_inv] step_delay_inv)
qed

lemma render_loop_not_before_delay:
  assumes "lifetime h cw ch evs = Inr w" and "0 < frames w"
  shows "500 \<le> clock w"
  using lifetime_delay_inv[OF assms(1)] assms(2)
  by (auto simp: delay_inv_def frames_def split: option.splits)

text \<open>
  C2. The first half of the claim holds: by \<open>render_loop_not_before_delay\<close> no frame is
  rendered before 500 ms have passed since the mount. The second half fails on the code:
  the cleanup removes the listeners and disposes of the renderer, but it cancels neither
  the timeout nor the animation frame request. Mounted with WebGL, unmounted after the
  first frame: the listeners are gone, and the next two animation frames still run
  \<open>animate\<close> (3 frames rendered instead of 1). Unmounted before the delay has elapsed:
  the timeout still fires and starts the loop.
\<close>

theorem render_loop_survives_unmount:
  "map_sum id frames (lifetime webgl_host 600 400 [Elapse 500, TimeoutFires, Unmount]) = Inr 1 \<and>
   map_sum id listeners (lifetime webgl_host 600 400 [Elapse 500, TimeoutFires, Unmount]) = Inr [] \<and>
   map_sum id frames (lifetime webgl_host 600 400
      [Elapse 500, TimeoutFires, Unmount, AnimationFrame, AnimationFrame]) = Inr 3 \<and>
   map_sum id frames (lifetime webgl_host 600 400 [Unmount, Elapse 500, TimeoutFires]) = Inr 1"
  by (simp add: lifetime_def mount_effect_def webgl_host_ok initial_widget_def widget_events_def
      addEventListener_def removeEventListener_def frames_def step_defs new_scene_def Let_def)

lemma step_loading_inv: "loading_inv w \<Longrightarrow> e \<noteq> Unmount \<Longrightarrow> loading_inv (step e w)"
  by (cases e) (auto simp: loading_inv_def step_defs split: option.splits)

lemma step_isLoading: "isLoading (step e w) \<Longrightarrow> isLoading w"
  by (cases e) (auto simp: step_defs fold_remove_other split: option.splits if_splits)

lemma run_isLoading: "isLoading (run w evs) \<Longrightarrow> isLoading w"
  by (induction evs arbitrary: w) (auto dest: step_isLoading simp del: step.simps)

lemma lifetime_loading_inv:
  assumes "isWebGLAvailable h = Inr True" "Unmount \<notin> set evs" "lifetime h cw ch evs = Inr w"
  shows "loading_inv w"
proof -
  from assms(3) obtain w0 where w0: "mount_effect h cw ch initial_widget = Inr w0" "w = run w0 evs"
    by (rule lifetimeE)
  from w0(1) assms(1) have "loading_inv w0"
    by (elim mount_cases) (simp_all add: loading_inv_def live_def)
  then show ?thesis
    unfolding w0(2) using assms(2)
    by (intro run_invariant[where P = loading_inv]) (auto intro!: step_loading_inv simp del: step.simps)
qed

text \<open>
  C7, as amended. For a widget that is still mounted: the loading flag is true as long
  as less than 500 ms have passed since the mount. If the probe succeeded, the flag is
  true exactly while the timeout is pending; once 500 ms have passed the timeout's
  callback clears it, and a cleared flag stays cleared whatever happens next. If the
  probe failed, no timeout was started and the flag stays true for good.
\<close>

theorem loading_flag_cleared_by_timer_only:
  assumes "lifetime h cw ch evs = Inr w" and "Unmount \<notin> set evs"
  shows "(clock w < 500 \<longrightarrow> isLoading w) \<and>
         (isWebGLAvailable h = Inr True \<longrightarrow>
            (isLoading w \<longleftrightarrow> timeout_due w = Some 500) \<and>
            (500 \<le> clock w \<longrightarrow> \<not> isLoading (step TimeoutFires w)) \<and>
            (\<not> isLoading w \<longrightarrow> (\<forall>evs'. \<not> isLoading (run w evs')))) \<and>
         (isWebGLAvailable h = Inr False \<longrightarrow> (\<forall>evs'. isLoading (run w evs')))"
proof -
  obtain b where b: "isWebGLAvailable h = Inr b" using isWebGLAvailable_returns by blast
  show ?thesis
  proof (cases b)
    case True
    with b assms have inv: "loading_inv w" by (intro lifetime_loading_inv) auto
    have 1: "clock w < 500 \<longrightarrow> isLoading w"
      using inv by (auto simp: loading_inv_def)
    have 2: "isLoading w \<longleftrightarrow> timeout_due w = Some 500"
      using inv by (simp add: loading_inv_def)
    have 3: "500 \<le> clock w \<longrightarrow> \<not> isLoading (step TimeoutFires w)"
      using inv by (auto simp: loading_inv_def step_defs split: option.splits)
    have 4: "\<not> isLoading w \<longrightarrow> (\<forall>evs'. \<not> isLoading (run w evs'))"
      using run_isLoading by blast
    show ?thesis using True b 1 2 3 4 by simp
  next
    case False
    have "isLoading (run w evs')" for evs'
    proof -
      have "lifetime h cw ch (evs @ evs') = Inr (run w evs')"
        using assms(1) by (auto simp: lifetime_def run_append split: sum.splits)
      with False b have "fallen_back (run w evs')" by (intro lifetime_fallen_back) auto
      then show ?thesis by (simp add: fallen_back_def)
    qed
    from this this[of "[]"] show ?thesis using False b by simp
  qed
qed

theorem loading_flag_cleared_by_timer_only_witness:
  "Unmount \<notin> set [Elapse 500] \<and> isWebGLAvailable webgl_host = Inr True \<and>
   isLoading (projr (lifetime webgl_host 600 400 [Elapse 500])) \<and>
   \<not> isLoading (step TimeoutFires (projr (lifetime webgl_host 600 400 [Elapse 500])))"
proof -
  let ?w = "projr (lifetime webgl_host 600 400 [Elapse 500])"
  have u: "Unmount \<notin> set [Elapse 500]" by simp
  have c: "clock ?w = 500" "timeout_due ?w = Some 500"
    by (simp_all add: lifetime_def mount_effect_def webgl_host_ok fold_add_other initial_widget_def)
  show ?thesis
    using loading_flag_cleared_by_timer_only[OF lifetime_projr u, of webgl_host 600 400] c
    by (simp add: webgl_host_ok del: step.simps)
qed

text \<open>
  C7 as stated fails where the probe fails at mount: the effect returns before it starts
  the timeout, so long after the 500 ms the flag is still true.
\<close>

theorem loading_flag_stays_true_without_webgl:
  "map_sum id isLoading (lifetime no_webgl_host 600 400 [Elapse 500, TimeoutFires, Elapse 10000]) = Inr True \<and>
   map_sum id clock (lifetime no_webgl_host 600 400 [Elapse 500, TimeoutFires, Elapse 10000]) = Inr 10500"
  by (simp add: lifetime_def mount_effect_def no_webgl_host_fails initial_widget_def)

section \<open>Auto-rotation and the speed control\<close>

lemma run_frames:
  assumes "scene w = Some sc" "frame_requested w"
  shows "rotation (run w (replicate n AnimationFrame)) =
           Some (rotation_x sc, ((\<lambda>y. num_add y (rotationSpeed w)) ^^ n) (rotation_y sc)) \<and>
         frames (run w (replicate n AnimationFrame)) = frames_rendered sc + n"
  using assms
proof (induction n arbitrary: w sc)
  case 0
  then show ?case by (simp add: rotation_def frames_def)
next
  case (Suc n)
  let ?w = "step AnimationFrame w"
  let ?sc = "animate (rotationSpeed w) sc"
  have 1: "scene ?w = Some ?sc" "frame_requested ?w" "rotationSpeed ?w = rotationSpeed w"
    using Suc.prems by (simp_all add: animate_frame_def)
  have 2: "rotation_x ?sc = rotation_x sc" "rotation_y ?sc = num_add (rotation_y sc) (rotationSpeed w)"
    "frames_rendered ?sc = Suc (frames_rendered sc)"
    by (simp_all add: animate_def)
  show ?case
    using Suc.IH[OF 1(1,2)] funpow_swap1[of "\<lambda>y. num_add y (rotationSpeed w)" n "rotation_y sc"]
    by (simp add: 1 2 del: step.simps)
qed

text \<open>
  C6, as amended. Animation frames with no other event in between each add the current
  speed once to \<open>rotation.y\<close>, in binary64 arithmetic, and leave \<open>rotation.x\<close> alone.
  With speed \<open>0.01\<close>, 100 frames take \<open>rotation.y\<close> from 0 to \<open>1 + 3 / 2^52\<close>, which
  JavaScript prints as \<open>1.0000000000000007\<close>.
\<close>

theorem frames_add_speed_in_binary64:
  assumes "scene w = Some sc" and "frame_requested w"
  shows "rotation (run w (replicate n AnimationFrame)) =
           Some (rotation_x sc, ((\<lambda>y. num_add y (rotationSpeed w)) ^^ n) (rotation_y sc)) \<and>
         frames (run w (replicate n AnimationFrame)) = frames_rendered sc + n \<and>
         (rotationSpeed w = lit (1 / 100) \<and> rotation_y sc = Fin 0 \<longrightarrow>
            rotation (run w (replicate 100 AnimationFrame)) =
              Some (rotation_x sc, Fin (1 + 3 / 2 ^ 52)))"
  using run_frames[OF assms, of n] run_frames[OF assms, of 100]
  by (auto simp: hundred_frames)

theorem frames_add_speed_in_binary64_witness:
  "frame_requested (projr (lifetime webgl_host 600 400
      [SpeedInput (Fin 0), Elapse 500, TimeoutFires, SpeedInput (lit (1 / 100))])) \<and>
   rotationSpeed (projr (lifetime webgl_host 600 400
      [SpeedInput (Fin 0), Elapse 500, TimeoutFires, SpeedInput (lit (1 / 100))])) = lit (1 / 100) \<and>
   rotation (projr (lifetime webgl_host 600 400
      [SpeedInput (Fin 0), Elapse 500, TimeoutFires, SpeedInput (lit (1 / 100))])) =
     Some (Fin 0, Fin 0) \<and>
   rotation (run (projr (lifetime webgl_host 600 400
      [SpeedInput (Fin 0), Elapse 500, TimeoutFires, SpeedInput (lit (1 / 100))]))
      (replicate 100 AnimationFrame)) = Some (Fin 0, Fin (1 + 3 / 2 ^ 52))"
proof -
  let ?evs = "[SpeedInput (Fin 0), Elapse 500, TimeoutFires, SpeedInput (lit (1 / 100))]"
  let ?w = "projr (lifetime webgl_host 600 400 ?evs)"
  let ?sc = "(new_scene 600 400)\<lparr>frames_rendered := 1\<rparr>"
  have l: "lifetime webgl_host 600 400 evs = Inr (run (mounted_3d 600 400) evs)" for evs
    using mounted_webgl[of 600 400] by (simp add: lifetime_def split: sum.splits)
  have 1: "scene ?w = Some ?sc"
    by (simp add: l mounted_3d_def step_defs range_value_def lit_0 lit_01 lit_001 new_scene_def r64_def)
  have 2: "frame_requested ?w"
    by (simp add: l mounted_3d_def step_defs range_value_def lit_0 lit_01 lit_001)
  have 3: "rotationSpeed ?w = lit (1 / 100)"
    by (simp add: l mounted_3d_def step_defs range_value_def lit_0 lit_01 lit_001)
  have 4: "rotation_y ?sc = Fin 0" "rotation_x ?sc = Fin 0"
    by (simp_all add: new_scene_def Let_def)
  show ?thesis
    using frames_add_speed_in_binary64[OF 1 2, of 100] 2 3 4 1
    by (simp add: rotation_def del: step.simps)
qed

text \<open>
  C6 as stated fails: mounted with the default speed \<open>0.01\<close>, after the 100 frames that
  the timeout and 99 animation frames render, \<open>rotation.y\<close> is \<open>1 + 3 / 2^52\<close> and not the
  \<open>0 + 1.0\<close> of the claim. The 100 roundings of the additions do not cancel.
\<close>

theorem hundred_frames_not_exactly_one:
  "map_sum id frames (lifetime webgl_host 600 400
      (Elapse 500 # TimeoutFires # replicate 99 AnimationFrame)) = Inr 100 \<and>
   map_sum id rotation (lifetime webgl_host 600 400
      (Elapse 500 # TimeoutFires # replicate 99 AnimationFrame)) =
     Inr (Some (Fin 0, Fin (1 + 3 / 2 ^ 52))) \<and>
   Fin (1 + 3 / 2 ^ 52) \<noteq> num_add (Fin 0) (Fin 1)"
proof -
  let ?f = "\<lambda>y. num_add y (lit (1 / 100))"
  define w where "w = run (mounted_3d 600 400) [Elapse 500, TimeoutFires]"
  define sc where "sc = animate (lit (1 / 100)) (new_scene 600 400)"
  have w: "scene w = Some sc" "frame_requested w" "rotationSpeed w = lit (1 / 100)"
    by (simp_all add: w_def sc_def mounted_3d_def timeout_callback_def animate_frame_def setIsLoading_def)
  have sc: "rotation_x sc = Fin 0" "rotation_y sc = ?f (Fin 0)" "frames_rendered sc = 1"
    by (simp_all add: sc_def animate_def new_scene_def Let_def)
  have l: "lifetime webgl_host 600 400 (Elapse 500 # TimeoutFires # replicate 99 AnimationFrame) =
        Inr (run w (replicate 99 AnimationFrame))"
    using mounted_webgl[of 600 400] by (simp add: lifetime_def w_def split: sum.splits del: step.simps)
  have e: "(100::nat) = Suc 99" by simp
  have "(?f ^^ 100) (Fin 0) = ?f ((?f ^^ 99) (Fin 0))"
    by (subst e) (simp only: funpow.simps o_apply)
  also have "\<dots> = (?f ^^ 99) (?f (Fin 0))"
    by (rule funpow_swap1)
  finally have h: "(?f ^^ 99) (?f (Fin 0)) = Fin (1 + 3 / 2 ^ 52)"
    using hundred_frames by simp
  have one: "r64 1 = Fin 1"
    by (simp add: r64_normal[where e = 0] rte_eval)
  show ?thesis
    using run_frames[OF w(1,2), of 99] by (simp add: l w sc h one)
qed

lemma step_speed_inv:
  assumes "speed_inv w"
  shows "speed_inv (step e w)"
proof (cases e)
  case (SpeedInput v)
  then show ?thesis
    using range_value_bounds[of v] assms by (simp add: speed_inv_def onSpeedChange_def)
qed (insert assms, auto simp: speed_inv_def step_defs fold_remove_other split: option.splits)

lemma step_f64_inv: "f64_inv w \<Longrightarrow> f64_inv (step e w)"
  by (cases e) (auto simp: f64_inv_def step_defs fold_remove_other is_f64_add
      split: option.splits list.splits)

lemma lifetime_speed_f64:
  assumes "lifetime h cw ch evs = Inr w"
  shows "speed_inv w" "f64_inv w"
proof -
  from assms obtain w0 where w0: "mount_effect h cw ch initial_widget = Inr w0" "w = run w0 evs"
    by (rule lifetimeE)
  have s: "num_le (Fin 0) (lit (1 / 100)) \<and> num_le (lit (1 / 100)) (lit (1 / 10))"
    by (simp add: lit_001 lit_01)
  have z: "is_f64 (Fin 0)" by (simp add: is_f64_def r64_def)
  from w0(1) have "speed_inv w0 \<and> f64_inv w0"
    by (rule mount_cases)
      (simp_all add: speed_inv_def f64_inv_def s z initial_widget_def new_scene_def Let_def)
  then show "speed_inv w" "f64_inv w"
    unfolding w0(2)
    by (auto intro!: run_invariant[where P = speed_inv] run_invariant[where P = f64_inv]
        step_speed_inv step_f64_inv)
qed

lemma step_pointer_speed:
  "pointer_event e \<Longrightarrow> scene (step e (w\<lparr>rotationSpeed := v\<rparr>)) = scene (step e w)"
  by (cases e) (auto simp: dispatch_def split: option.splits)

text \<open>
  C4. At every moment of every lifetime the stored rotation speed lies between 0 and
  \<open>0.1\<close>: it starts at \<open>0.01\<close> and is only ever set to a value the range input reports.
  When the speed is 0, an animation frame leaves the cube's rotation as it is. And the
  rotation that a pointer or touch event produces is the same whatever the speed is.
\<close>

theorem speed_bounded_and_independent_of_drag:
  assumes "lifetime h cw ch evs = Inr w"
  shows "num_le (Fin 0) (rotationSpeed w) \<and> num_le (rotationSpeed w) (lit (1 / 10)) \<and>
         (rotationSpeed w = Fin 0 \<longrightarrow> rotation (step AnimationFrame w) = rotation w) \<and>
         (\<forall>e v. pointer_event e \<longrightarrow>
            rotation (step e (w\<lparr>rotationSpeed := v\<rparr>)) = rotation (step e w))"
proof -
  note inv = lifetime_speed_f64[OF assms]
  have "rotation (step AnimationFrame w) = rotation w" if "rotationSpeed w = Fin 0"
    using inv(2) that
    by (auto simp: f64_inv_def rotation_def animate_frame_def animate_def num_add_zero
        split: option.splits)
  moreover have "rotation (step e (w\<lparr>rotationSpeed := v\<rparr>)) = rotation (step e w)"
    if "pointer_event e" for e v
    using step_pointer_speed[OF that, where w = w and v = v] by (simp add: rotation_def del: step.simps)
  ultimately show ?thesis
    using inv(1) by (simp add: speed_inv_def del: step.simps)
qed

theorem speed_bounded_and_independent_of_drag_witness:
  "rotationSpeed (projr (lifetime webgl_host 600 400
      [Elapse 500, TimeoutFires, SpeedInput (Fin 5), SpeedInput (Fin 0)])) = Fin 0 \<and>
   rotationSpeed (projr (lifetime webgl_host 600 400
      [Elapse 500, TimeoutFires, SpeedInput (Fin 5)])) = lit (1 / 10) \<and>
   rotation (step AnimationFrame (projr (lifetime webgl_host 600 400
      [Elapse 500, TimeoutFires, SpeedInput (Fin 5), SpeedInput (Fin 0)]))) =
     Some (Fin 0, lit (1 / 100)) \<and>
   pointer_event (MouseDown (Fin 100) (Fin 100))"
proof -
  let ?evs = "[Elapse 500, TimeoutFires, SpeedInput (Fin 5), SpeedInput (Fin 0)]"
  let ?w = "projr (lifetime webgl_host 600 400 ?evs)"
  have l: "lifetime webgl_host 600 400 evs = Inr (run (mounted_3d 600 400) evs)" for evs
    using mounted_webgl[of 600 400] by (simp add: lifetime_def split: sum.splits)
  have 1: "rotationSpeed ?w = Fin 0"
    by (simp add: l mounted_3d_def step_defs range_value_def lit_0 lit_01)
  have 2: "rotation ?w = Some (Fin 0, lit (1 / 100))"
    by (simp add: l mounted_3d_def step_defs range_value_def lit_0 lit_01 rotation_def
        new_scene_def lit_001 r64_normal[where e = "-7"] rte_eval)
  have 3: "rotationSpeed (projr (lifetime webgl_host 600 400
      [Elapse 500, TimeoutFires, SpeedInput (Fin 5)])) = lit (1 / 10)"
    by (simp add: l mounted_3d_def step_defs range_value_def lit_0 lit_01)
  show ?thesis
    using speed_bounded_and_independent_of_drag[OF lifetime_projr, of webgl_host 600 400 ?evs] 1 2 3
    by (simp del: step.simps)
qed

lemma step_speed: "(\<And>v. e \<noteq> SpeedInput v) \<Longrightarrow> rotationSpeed (step e w) = rotationSpeed w"
  by (cases e) (auto simp: step_defs fold_remove_other split: option.splits)

lemma run_speed: "\<forall>v. SpeedInput v \<notin> set evs \<Longrightarrow> rotationSpeed (run w evs) = rotationSpeed w"
proof (induction evs arbitrary: w)
  case Nil
  then show ?case by simp
next
  case (Cons e evs)
  then have "\<And>v. e \<noteq> SpeedInput v" by auto
  then have "rotationSpeed (step e w) = rotationSpeed w" by (rule step_speed)
  with Cons show ?case by (simp del: step.simps)
qed

lemma mount_speed:
  "mount_effect h cw ch initial_widget = Inr w \<Longrightarrow> rotationSpeed w = lit (1 / 100)"
  by (erule mount_cases) (simp_all add: initial_widget_def)

text \<open>
  C10. At the first render the rotation speed is \<open>0.01\<close> and the readout shows \<open>0.010\<close>.
  As long as the speed control has not been used, the speed is still \<open>0.01\<close>, which is
  not zero, and the 3D view shows the slider at \<open>0.01\<close> and the readout \<open>0.010\<close>.
\<close>

theorem default_speed_and_readout:
  assumes "lifetime h cw ch evs = Inr w" and "\<forall>v. SpeedInput v \<notin> set evs"
  shows "rotationSpeed initial_widget = lit (1 / 100) \<and>
         render initial_widget = WidgetView True (lit (1 / 100)) (Some ''0.010'') \<and>
         rotationSpeed w = lit (1 / 100) \<and> rotationSpeed w \<noteq> Fin 0 \<and>
         (webglSupported w \<longrightarrow> render w = WidgetView (isLoading w) (lit (1 / 100)) (Some ''0.010''))"
proof -
  from assms(1) obtain w0 where w0: "mount_effect h cw ch initial_widget = Inr w0" "w = run w0 evs"
    by (rule lifetimeE)
  have s: "rotationSpeed w = lit (1 / 100)"
    using mount_speed[OF w0(1)] run_speed[OF assms(2)] by (simp add: w0(2))
  have i: "rotationSpeed initial_widget = lit (1 / 100)" "isLoading initial_widget"
    "webglSupported initial_widget"
    by (simp_all add: initial_widget_def)
  have n: "lit (1 / 100) \<noteq> Fin 0" by (simp add: lit_001)
  show ?thesis
    by (simp add: s i n render_def toFixed3_default)
qed

theorem default_speed_and_readout_witness:
  "(\<forall>v. SpeedInput v \<notin> set [Elapse 500, TimeoutFires]) \<and>
   render (projr (lifetime webgl_host 600 400 [Elapse 500, TimeoutFires])) =
     WidgetView False (lit (1 / 100)) (Some ''0.010'')"
proof -
  have a: "\<forall>v. SpeedInput v \<notin> set [Elapse 500, TimeoutFires]" by simp
  have b: "webglSupported (projr (lifetime webgl_host 600 400 [Elapse 500, TimeoutFires]))"
    "\<not> isLoading (projr (lifetime webgl_host 600 400 [Elapse 500, TimeoutFires]))"
    by (simp_all add: mounted_3d_def lifetime_def mount_effect_def webgl_host_ok fold_add_other initial_widget_def step_defs)
  show ?thesis
    using default_speed_and_readout[OF lifetime_projr a, of webgl_host 600 400] a b
    by simp
qed

end
